theory Spec2Isabelle
  imports Main "HOL-Library.Word"
begin

unbundle bit_operations_syntax

section \<open>Bytes, strings and errors\<close>

text \<open>
  A Go \<open>[]byte\<close> is a list of 8-bit words. DNS names and base32 text are Go strings over
  ASCII and are modelled as \<open>string\<close>; the strings of a TXT record carry raw payload
  bytes (\<open>string(data[:n])\<close> and \<open>[]byte(s)\<close> only copy bytes) and are modelled as byte
  lists.
\<close>

type_synonym byte = "8 word"

text \<open>
  Every error value the modelled code can return, and the run-time panic it can
  raise (an index out of range). \<open>Wrapf t e\<close> is \<open>fmt.Errorf(t + ": %w", e)\<close>; the other constructors of the
  package keep the arguments of their format string instead of the formatted text.
  \<open>LibError\<close> stands for the errors of the QUIC stream and of the DNS library's
  \<open>Pack\<close>/\<open>Unpack\<close>, which the code only passes on.
\<close>

datatype error =
    EOF
  | LibError nat
  | CorruptInputError
  | Wrapf string error
  | ErrQuestionCount nat
  | ErrQueryType "16 word"
  | ErrDomainMismatch string string
  | ErrResponse string
  | PanicIndexOutOfRange

section \<open>The base32 encoding used by the codec\<close>

text \<open>
  \<open>Base32Encoding = base32.StdEncoding.WithPadding(base32.NoPadding)\<close>: the RFC 4648
  alphabet, no padding character. The encoder loads four bytes into a 32-bit word
  \<open>hi\<close>, the fifth into \<open>lo = hi << 8 | b4\<close>, and emits eight 5-bit indices into the
  alphabet; a final group of 1, 2, 3 or 4 bytes yields the first 2, 4, 5 or 7 characters
  of the zero-filled group.
\<close>

definition encodeStd :: string where
  "encodeStd = ''ABCDEFGHIJKLMNOPQRSTUVWXYZ234567''"

definition enc :: "32 word \<Rightarrow> char" where
  "enc v = encodeStd ! unat (v AND 0x1F)"

definition hi32 :: "byte \<Rightarrow> byte \<Rightarrow> byte \<Rightarrow> byte \<Rightarrow> 32 word" where
  "hi32 b0 b1 b2 b3 =
     push_bit 24 (ucast b0) OR push_bit 16 (ucast b1) OR push_bit 8 (ucast b2) OR ucast b3"

definition lo32 :: "32 word \<Rightarrow> byte \<Rightarrow> 32 word" where
  "lo32 hi b4 = push_bit 8 hi OR ucast b4"

definition encode_block :: "byte \<Rightarrow> byte \<Rightarrow> byte \<Rightarrow> byte \<Rightarrow> byte \<Rightarrow> string" where
  "encode_block b0 b1 b2 b3 b4 =
     (let hi = hi32 b0 b1 b2 b3; lo = lo32 hi b4 in
      [enc (drop_bit 27 hi), enc (drop_bit 22 hi), enc (drop_bit 17 hi),
       enc (drop_bit 12 hi), enc (drop_bit 7 hi), enc (drop_bit 2 hi),
       enc (drop_bit 5 lo), enc lo])"

fun EncodeToString :: "byte list \<Rightarrow> string" where
  "EncodeToString (b0 # b1 # b2 # b3 # b4 # src) =
     encode_block b0 b1 b2 b3 b4 @ EncodeToString src"
| "EncodeToString [b0, b1, b2, b3] = take 7 (encode_block b0 b1 b2 b3 0)"
| "EncodeToString [b0, b1, b2] = take 5 (encode_block b0 b1 b2 0 0)"
| "EncodeToString [b0, b1] = take 4 (encode_block b0 b1 0 0 0)"
| "EncodeToString [b0] = take 2 (encode_block b0 0 0 0 0)"
| "EncodeToString [] = []"

text \<open>
  The decoder's table maps a byte to its index in the alphabet, and to \<open>0xFF\<close> when it is
  not in the alphabet. A group of \<open>dlen\<close> characters is read into \<open>dbuf\<close> (zero-filled to
  eight entries) and the \<open>switch dlen\<close> with its fall-through cases 8, 7, 5, 4, 2 writes
  5, 4, 3, 2 or 1 bytes; a final group of 1, 3 or 6 characters matches no case and writes
  nothing. \<open>DecodeString\<close> removes carriage returns and line feeds first.
\<close>

fun index_from :: "char \<Rightarrow> string \<Rightarrow> byte \<Rightarrow> byte" where
  "index_from c [] i = 0xFF"
| "index_from c (x # xs) i = (if x = c then i else index_from c xs (i + 1))"

definition decodeMap :: "char \<Rightarrow> byte" where
  "decodeMap c = index_from c encodeStd 0"

definition decoded_len :: "nat \<Rightarrow> nat" where
  "decoded_len dlen =
     (if dlen = 8 then 5 else if dlen = 7 then 4 else if dlen = 5 then 3
      else if dlen = 4 then 2 else if dlen = 2 then 1 else 0)"

definition decode_block :: "byte list \<Rightarrow> byte list" where
  "decode_block dbuf =
     [push_bit 3 (dbuf ! 0) OR drop_bit 2 (dbuf ! 1),
      push_bit 6 (dbuf ! 1) OR push_bit 1 (dbuf ! 2) OR drop_bit 4 (dbuf ! 3),
      push_bit 4 (dbuf ! 3) OR drop_bit 1 (dbuf ! 4),
      push_bit 7 (dbuf ! 4) OR push_bit 2 (dbuf ! 5) OR drop_bit 3 (dbuf ! 6),
      push_bit 5 (dbuf ! 6) OR (dbuf ! 7)]"

fun decode :: "string \<Rightarrow> error + byte list" where
  "decode src =
     (if src = [] then Inr []
      else
        let grp = take 8 src;
            dbuf = map decodeMap grp @ replicate (8 - length grp) 0
        in if 0xFF \<in> set (map decodeMap grp) then Inl CorruptInputError
           else (case decode (drop 8 src) of
                   Inl e \<Rightarrow> Inl e
                 | Inr rest \<Rightarrow> Inr (take (decoded_len (length grp)) (decode_block dbuf) @ rest)))"

declare decode.simps [simp del]

definition stripNewlines :: "string \<Rightarrow> string" where
  "stripNewlines s = filter (\<lambda>c. c \<noteq> CHR 0x0D \<and> c \<noteq> CHR 0x0A) s"

definition DecodeString :: "string \<Rightarrow> error + byte list" where
  "DecodeString s = decode (stripNewlines s)"

section \<open>The \<open>strings\<close> functions the codec calls\<close>

text \<open>
  \<open>strings.ToLower\<close> and \<open>strings.ToUpper\<close> on ASCII text (their byte-wise fast path; the
  names and base32 text handled here are ASCII), \<open>strings.Join\<close>, \<open>strings.HasSuffix\<close>,
  \<open>strings.TrimSuffix\<close>, and \<open>strings.ReplaceAll(s, ".", "")\<close>.
\<close>

definition lower_char :: "char \<Rightarrow> char" where
  "lower_char c =
     (let n = (of_char c :: nat) in if 65 \<le> n \<and> n \<le> 90 then char_of (n + 32) else c)"

definition upper_char :: "char \<Rightarrow> char" where
  "upper_char c =
     (let n = (of_char c :: nat) in if 97 \<le> n \<and> n \<le> 122 then char_of (n - 32) else c)"

definition ToLower :: "string \<Rightarrow> string" where
  "ToLower s = map lower_char s"

definition ToUpper :: "string \<Rightarrow> string" where
  "ToUpper s = map upper_char s"

fun Join :: "string list \<Rightarrow> string \<Rightarrow> string" where
  "Join [] sep = []"
| "Join [l] sep = l"
| "Join (l # ls) sep = l @ sep @ Join ls sep"

definition HasSuffix :: "string \<Rightarrow> string \<Rightarrow> bool" where
  "HasSuffix s suffix =
     (length suffix \<le> length s \<and> drop (length s - length suffix) s = suffix)"

definition TrimSuffix :: "string \<Rightarrow> string \<Rightarrow> string" where
  "TrimSuffix s suffix =
     (if HasSuffix s suffix then take (length s - length suffix) s else s)"

definition remove_dots :: "string \<Rightarrow> string" where
  "remove_dots s = filter (\<lambda>c. c \<noteq> CHR ''.'') s"

section \<open>Subdomain codec\<close>

definition MaxLabelLength :: nat where
  "MaxLabelLength = 63"

definition MaxDomainLength :: int where
  "MaxDomainLength = 253"

text \<open>The label loop of \<open>EncodeSubdomain\<close>: cut off 63 characters, or what is left.\<close>

function split_labels :: "string \<Rightarrow> string list" where
  "split_labels encoded =
     (if length encoded > 0 then
        (let labelLen = (if length encoded < MaxLabelLength then length encoded
                         else MaxLabelLength)
         in take labelLen encoded # split_labels (drop labelLen encoded))
      else [])"
  by pat_completeness auto
termination
  by (relation "measure length") (auto simp: MaxLabelLength_def)

declare split_labels.simps [simp del]

definition EncodeSubdomain :: "byte list \<Rightarrow> string" where
  "EncodeSubdomain data =
     (if length data = 0 then []
      else Join (split_labels (ToLower (EncodeToString data))) ''.'')"

definition DecodeSubdomain :: "string \<Rightarrow> error + byte list" where
  "DecodeSubdomain subdomain =
     (case DecodeString (ToUpper (remove_dots subdomain)) of
        Inl err \<Rightarrow> Inl (Wrapf ''failed to decode base32'' err)
      | Inr decoded \<Rightarrow> Inr decoded)"

definition CreateFQDN :: "string \<Rightarrow> string \<Rightarrow> string" where
  "CreateFQDN subdomain domain =
     (if subdomain = [] then domain @ ''.'' else subdomain @ ''.'' @ domain @ ''.'')"

definition ExtractSubdomain :: "string \<Rightarrow> string \<Rightarrow> error + string" where
  "ExtractSubdomain fqdn0 domain0 =
     (let fqdn = TrimSuffix fqdn0 ''.''; domain = TrimSuffix domain0 ''.'' in
      if \<not> HasSuffix fqdn (''.'' @ domain) \<and> fqdn \<noteq> domain
      then Inl (ErrDomainMismatch fqdn domain)
      else if fqdn = domain then Inr []
      else Inr (TrimSuffix fqdn (''.'' @ domain)))"

text \<open>
  Go's \<open>int\<close> is a 64-bit two's-complement integer here: every arithmetic result is
  wrapped into that range, and \<open>/\<close> truncates towards zero.
\<close>

definition wrap64 :: "int \<Rightarrow> int" where
  "wrap64 x = signed_take_bit 63 x"

definition quo :: "int \<Rightarrow> int \<Rightarrow> int" where
  "quo a b = (if (a < 0) = (b < 0) then \<bar>a\<bar> div \<bar>b\<bar> else - (\<bar>a\<bar> div \<bar>b\<bar>))"

definition CalculateMaxPayloadSize :: "int \<Rightarrow> int" where
  "CalculateMaxPayloadSize domainLen =
     (let availableLen = wrap64 (wrap64 (MaxDomainLength - domainLen) - 2);
          maxBase32Chars = availableLen;
          maxPayloadBytes = wrap64 (quo (wrap64 (maxBase32Chars * 5)) 8)
      in maxPayloadBytes)"

section \<open>DNS messages\<close>

text \<open>
  The part of the DNS library's message type that the package reads and writes: header
  bits, response code, and the question, answer and additional sections. A resource
  record is a TXT record with its strings, an OPT pseudo-record, or a record of another
  type; only the header of the latter two matters here. The field \<open>Question\<close> of the
  library's message is the field \<open>Questions\<close> here.
\<close>

record Question =
  Name :: string
  Qtype :: "16 word"
  Qclass :: "16 word"

record RR_Header =
  Hdr_Name :: string
  Rrtype :: "16 word"
  Class :: "16 word"
  Ttl :: "32 word"

datatype RR =
    TXT RR_Header "byte list list"
  | OPT RR_Header
  | OtherRR RR_Header

fun Header :: "RR \<Rightarrow> RR_Header" where
  "Header (TXT h txt) = h"
| "Header (OPT h) = h"
| "Header (OtherRR h) = h"

record Msg =
  Id :: "16 word"
  Response :: bool
  Opcode :: int
  RecursionDesired :: bool
  CheckingDisabled :: bool
  Rcode :: int
  Questions :: "Question list"
  Answer :: "RR list"
  Extra :: "RR list"

definition TypeTXT :: "16 word" where "TypeTXT = 16"
definition TypeOPT :: "16 word" where "TypeOPT = 41"
definition ClassINET :: "16 word" where "ClassINET = 1"
definition OpcodeQuery :: int where "OpcodeQuery = 0"
definition RcodeSuccess :: int where "RcodeSuccess = 0"
definition RcodeServerFailure :: int where "RcodeServerFailure = 2"
definition RcodeNameError :: int where "RcodeNameError = 3"
definition DefaultTTL :: "32 word" where "DefaultTTL = 60"
definition EDNSBufferSize :: "16 word" where "EDNSBufferSize = 1232"

text \<open>\<open>new(dns.Msg)\<close>: every field has its zero value.\<close>

definition new_Msg :: Msg where
  "new_Msg = \<lparr>Id = 0, Response = False, Opcode = 0, RecursionDesired = False,
     CheckingDisabled = False, Rcode = 0, Questions = [], Answer = [], Extra = []\<rparr>"

text \<open>
  The library's \<open>SetQuestion\<close> draws a fresh message id (the argument \<open>fresh\<close>), sets
  recursion-desired and installs one question of class INET. \<open>SetReply\<close> copies the id
  and opcode of the request, the two header bits for a standard query, resets the
  response code, and copies the first question when the request has one. \<open>IsEdns0\<close> is
  the last record of the additional section whose header type is OPT, if any.
  \<open>SetUDPSize\<close> stores the size in the class field of the OPT header.
\<close>

definition SetQuestion :: "16 word \<Rightarrow> string \<Rightarrow> 16 word \<Rightarrow> Msg \<Rightarrow> Msg" where
  "SetQuestion fresh z t m =
     m\<lparr>Id := fresh, RecursionDesired := True,
       Questions := [\<lparr>Name = z, Qtype = t, Qclass = ClassINET\<rparr>]\<rparr>"

definition SetReply :: "Msg \<Rightarrow> Msg \<Rightarrow> Msg" where
  "SetReply request m =
     (let m1 = m\<lparr>Id := Id request, Response := True, Opcode := Opcode request\<rparr>;
          m2 = (if Opcode m1 = OpcodeQuery
                then m1\<lparr>RecursionDesired := RecursionDesired request,
                        CheckingDisabled := CheckingDisabled request\<rparr>
                else m1);
          m3 = m2\<lparr>Rcode := RcodeSuccess\<rparr>
      in (case Questions request of
            [] \<Rightarrow> m3
          | q # qs \<Rightarrow> m3\<lparr>Questions := [q]\<rparr>))"

definition IsEdns0 :: "Msg \<Rightarrow> RR option" where
  "IsEdns0 m = find (\<lambda>r. Rrtype (Header r) = TypeOPT) (rev (Extra m))"

definition SetUDPSize :: "16 word \<Rightarrow> RR_Header \<Rightarrow> RR_Header" where
  "SetUDPSize udpsize h = h\<lparr>Class := udpsize\<rparr>"

section \<open>DNS message codec\<close>

definition CreateQuery :: "16 word \<Rightarrow> byte list \<Rightarrow> string \<Rightarrow> error + Msg" where
  "CreateQuery fresh data domain =
     (let msg = SetQuestion fresh (CreateFQDN (EncodeSubdomain data) domain) TypeTXT new_Msg;
          msg = msg\<lparr>RecursionDesired := True\<rparr>;
          opt = OPT (SetUDPSize EDNSBufferSize
                  \<lparr>Hdr_Name = ''.'', Rrtype = TypeOPT, Class = 0, Ttl = 0\<rparr>);
          msg = msg\<lparr>Extra := Extra msg @ [opt]\<rparr>
      in Inr msg)"

definition ParseQueryData :: "Msg \<Rightarrow> string \<Rightarrow> error + byte list" where
  "ParseQueryData msg domain =
     (if length (Questions msg) \<noteq> 1 then Inl (ErrQuestionCount (length (Questions msg)))
      else
        let question = Questions msg ! 0 in
        if Qtype question \<noteq> TypeTXT then Inl (ErrQueryType (Qtype question))
        else (case ExtractSubdomain (Name question) domain of
                Inl err \<Rightarrow> Inl (Wrapf ''failed to extract subdomain'' err)
              | Inr subdomain \<Rightarrow>
                  if subdomain = [] then Inr []
                  else (case DecodeSubdomain subdomain of
                          Inl err \<Rightarrow> Inl (Wrapf ''failed to decode subdomain'' err)
                        | Inr data \<Rightarrow> Inr data)))"

text \<open>The chunk loop of \<open>CreateResponse\<close>: cut off 255 bytes, or what is left.\<close>

function txt_chunks :: "byte list \<Rightarrow> byte list list" where
  "txt_chunks data =
     (if length data > 0 then
        (let chunkSize = (if length data < 255 then length data else 255)
         in take chunkSize data # txt_chunks (drop chunkSize data))
      else [])"
  by pat_completeness auto
termination
  by (relation "measure length") auto

declare txt_chunks.simps [simp del]

text \<open>
  \<open>CreateResponse\<close> indexes \<open>query.Question[0]\<close> on the path for a non-empty payload; with
  no question in the query that is an index out of range.
\<close>

definition CreateResponse :: "Msg \<Rightarrow> byte list \<Rightarrow> error + Msg" where
  "CreateResponse query data =
     (let msg = SetReply query new_Msg in
      if length data = 0 then Inr (msg\<lparr>Rcode := RcodeNameError\<rparr>)
      else
        let txtStrings = txt_chunks data in
        (case Questions query of
           [] \<Rightarrow> Inl PanicIndexOutOfRange
         | q # qs \<Rightarrow>
             let txt = TXT \<lparr>Hdr_Name = Name q, Rrtype = TypeTXT, Class = ClassINET,
                             Ttl = DefaultTTL\<rparr> txtStrings;
                 msg = msg\<lparr>Answer := Answer msg @ [txt]\<rparr>
             in (case IsEdns0 query of
                   None \<Rightarrow> Inr msg
                 | Some opt \<Rightarrow> Inr (msg\<lparr>Extra := Extra msg @ [opt]\<rparr>))))"

text \<open>
  \<open>ParseResponseData\<close>. The library's table \<open>dns.RcodeToString\<close> is the parameter
  \<open>rcodeToString\<close>, the text the table gives for a code (the empty text for a code that
  is not in the table). The loops over the answers and over the strings of each TXT
  record append to \<open>data\<close>.
\<close>

fun append_txt :: "byte list \<Rightarrow> RR \<Rightarrow> byte list" where
  "append_txt data (TXT h txt) = foldl (\<lambda>data s. data @ s) data txt"
| "append_txt data (OPT h) = data"
| "append_txt data (OtherRR h) = data"

definition ParseResponseData :: "(int \<Rightarrow> string) \<Rightarrow> Msg \<Rightarrow> error + byte list" where
  "ParseResponseData rcodeToString msg =
     (if Rcode msg = RcodeNameError then Inr []
      else if Rcode msg \<noteq> RcodeSuccess then Inl (ErrResponse (rcodeToString (Rcode msg)))
      else Inr (foldl append_txt [] (Answer msg)))"

definition CreateErrorResponse :: "Msg \<Rightarrow> int \<Rightarrow> Msg" where
  "CreateErrorResponse query rcode = (SetReply query new_Msg)\<lparr>Rcode := rcode\<rparr>"

section \<open>Stream adapters\<close>

text \<open>
  The QUIC stream and the DNS wire format belong to libraries and are parameters:
  \<open>sread st n\<close> is \<open>stream.Read\<close> into a buffer of \<open>n\<close> bytes, giving the bytes read, the
  error if any, and the stream afterwards; \<open>swrite st bs\<close> is \<open>stream.Write\<close>; \<open>unpack\<close>
  and \<open>pack\<close> are \<open>Msg.Unpack\<close> and \<open>Msg.Pack\<close>. A \<open>Read\<close> of an adapter takes the length
  of the caller's buffer \<open>p\<close> and returns the bytes it copied into \<open>p\<close> (their number is
  the count returned), or the error.
\<close>

record 's dnsStream =
  stream :: 's
  domain :: string

definition dnsStream_Read ::
  "('s \<Rightarrow> nat \<Rightarrow> (byte list \<times> error option) \<times> 's) \<Rightarrow> (byte list \<Rightarrow> error + Msg) \<Rightarrow>
   (int \<Rightarrow> string) \<Rightarrow> 's dnsStream \<Rightarrow> nat \<Rightarrow> (error + byte list) \<times> 's dnsStream" where
  "dnsStream_Read sread unpack rcodeToString ds len_p =
     (case sread (stream ds) 4096 of
        ((buf, Some err), st) \<Rightarrow> (Inl err, ds\<lparr>stream := st\<rparr>)
      | ((buf, None), st) \<Rightarrow>
          (case unpack buf of
             Inl err \<Rightarrow> (Inl (Wrapf ''failed to parse DNS response'' err), ds\<lparr>stream := st\<rparr>)
           | Inr msg \<Rightarrow>
               (case ParseResponseData rcodeToString msg of
                  Inl err \<Rightarrow>
                    (Inl (Wrapf ''failed to extract data from DNS response'' err),
                     ds\<lparr>stream := st\<rparr>)
                | Inr data \<Rightarrow> (Inr (take len_p data), ds\<lparr>stream := st\<rparr>))))"

definition dnsStream_Write ::
  "('s \<Rightarrow> byte list \<Rightarrow> error option \<times> 's) \<Rightarrow> (Msg \<Rightarrow> error + byte list) \<Rightarrow> 16 word \<Rightarrow>
   's dnsStream \<Rightarrow> byte list \<Rightarrow> (error + nat) \<times> 's dnsStream" where
  "dnsStream_Write swrite pack fresh ds p =
     (case CreateQuery fresh p (domain ds) of
        Inl err \<Rightarrow> (Inl (Wrapf ''failed to create DNS query'' err), ds)
      | Inr msg \<Rightarrow>
          (case pack msg of
             Inl err \<Rightarrow> (Inl (Wrapf ''failed to pack DNS query'' err), ds)
           | Inr packed \<Rightarrow>
               (case swrite (stream ds) packed of
                  (Some err, st) \<Rightarrow> (Inl err, ds\<lparr>stream := st\<rparr>)
                | (None, st) \<Rightarrow> (Inr (length p), ds\<lparr>stream := st\<rparr>))))"

definition serverDNSStream_Read ::
  "('s \<Rightarrow> nat \<Rightarrow> (byte list \<times> error option) \<times> 's) \<Rightarrow> (byte list \<Rightarrow> error + Msg) \<Rightarrow>
   's dnsStream \<Rightarrow> nat \<Rightarrow> (error + byte list) \<times> 's dnsStream" where
  "serverDNSStream_Read sread unpack ds len_p =
     (case sread (stream ds) 4096 of
        ((buf, Some err), st) \<Rightarrow> (Inl err, ds\<lparr>stream := st\<rparr>)
      | ((buf, None), st) \<Rightarrow>
          (case unpack buf of
             Inl err \<Rightarrow> (Inl (Wrapf ''failed to parse DNS query'' err), ds\<lparr>stream := st\<rparr>)
           | Inr msg \<Rightarrow>
               (case ParseQueryData msg (domain ds) of
                  Inl err \<Rightarrow>
                    (Inl (Wrapf ''failed to extract data from DNS query'' err),
                     ds\<lparr>stream := st\<rparr>)
                | Inr data \<Rightarrow> (Inr (take len_p data), ds\<lparr>stream := st\<rparr>))))"

text \<open>The query that \<open>serverDNSStream.Write\<close> builds to answer to.\<close>

definition dummyQuery :: "16 word \<Rightarrow> string \<Rightarrow> Msg" where
  "dummyQuery fresh dname = SetQuestion fresh (CreateFQDN [] dname) TypeTXT new_Msg"

definition serverDNSStream_Write ::
  "('s \<Rightarrow> byte list \<Rightarrow> error option \<times> 's) \<Rightarrow> (Msg \<Rightarrow> error + byte list) \<Rightarrow> 16 word \<Rightarrow>
   's dnsStream \<Rightarrow> byte list \<Rightarrow> (error + nat) \<times> 's dnsStream" where
  "serverDNSStream_Write swrite pack fresh ds p =
     (case CreateResponse (dummyQuery fresh (domain ds)) p of
        Inl panic \<Rightarrow> (Inl panic, ds)
      | Inr msg \<Rightarrow>
          (case pack msg of
             Inl err \<Rightarrow> (Inl (Wrapf ''failed to pack DNS response'' err), ds)
           | Inr packed \<Rightarrow>
               (case swrite (stream ds) packed of
                  (Some err, st) \<Rightarrow> (Inl err, ds\<lparr>stream := st\<rparr>)
                | (None, st) \<Rightarrow> (Inr (length p), ds\<lparr>stream := st\<rparr>))))"

section \<open>Bidirectional relay\<close>

text \<open>
  \<open>BiDirectionalCopy\<close> starts the two copies, each of which sends the result of its
  \<open>io.Copy\<close> (no error, or an error) on \<open>errChan\<close>, and then receives twice. The function
  is followed through its receives: it waits for the first result, then for the second,
  and then returns. A run is the list of the results in the order in which the channel
  delivers them.
\<close>

datatype relay_state =
    AwaitFirst
  | AwaitSecond "error option"
  | Returned "error option"

definition first_non_EOF :: "error option \<Rightarrow> error option \<Rightarrow> error option" where
  "first_non_EOF err1 err2 =
     (if err1 \<noteq> None \<and> err1 \<noteq> Some EOF then err1
      else if err2 \<noteq> None \<and> err2 \<noteq> Some EOF then err2
      else None)"

fun relay_receive :: "relay_state \<Rightarrow> error option \<Rightarrow> relay_state" where
  "relay_receive AwaitFirst err1 = AwaitSecond err1"
| "relay_receive (AwaitSecond err1) err2 = Returned (first_non_EOF err1 err2)"
| "relay_receive (Returned r) e = Returned r"

definition BiDirectionalCopy :: "error option list \<Rightarrow> relay_state" where
  "BiDirectionalCopy delivered = foldl relay_receive AwaitFirst delivered"

section \<open>Auxiliary notions for the statements\<close>

text \<open>
  The labels of a name: the parts between its dots (\<open>strings.Split(name, ".")\<close>); the
  empty name has no label.
\<close>

fun Split_dot :: "string \<Rightarrow> string list" where
  "Split_dot [] = [[]]"
| "Split_dot (c # cs) =
     (if c = CHR ''.'' then [] # Split_dot cs
      else (case Split_dot cs of [] \<Rightarrow> [[c]] | l # ls \<Rightarrow> (c # l) # ls))"

definition labels_of :: "string \<Rightarrow> string list" where
  "labels_of name = (if name = [] then [] else Split_dot name)"

text \<open>Building a query and parsing it again, as the two ends of the tunnel do.\<close>

definition query_roundtrip :: "16 word \<Rightarrow> byte list \<Rightarrow> string \<Rightarrow> error + byte list" where
  "query_roundtrip fresh p dname =
     (case CreateQuery fresh p dname of
        Inl err \<Rightarrow> Inl err
      | Inr msg \<Rightarrow> ParseQueryData msg dname)"

definition response_roundtrip ::
  "(int \<Rightarrow> string) \<Rightarrow> Msg \<Rightarrow> byte list \<Rightarrow> error + byte list" where
  "response_roundtrip rcodeToString q p =
     (case CreateResponse q p of
        Inl panic \<Rightarrow> Inl panic
      | Inr msg \<Rightarrow> ParseResponseData rcodeToString msg)"

text \<open>
  For the closed examples: a stream that holds the segments still to be delivered, each
  read returning the next segment (or as much of it as the buffer takes) and end of input
  when none is left; and an \<open>Unpack\<close> given by a finite table from wire bytes to messages.
\<close>

fun seg_read :: "byte list list \<Rightarrow> nat \<Rightarrow> (byte list \<times> error option) \<times> byte list list" where
  "seg_read [] n = (([], Some EOF), [])"
| "seg_read (seg # segs) n =
     ((take n seg, None), (if n < length seg then drop n seg # segs else segs))"

definition table_unpack :: "(byte list \<times> Msg) list \<Rightarrow> byte list \<Rightarrow> error + Msg" where
  "table_unpack tab wire = (case map_of tab wire of None \<Rightarrow> Inl (LibError 0) | Some m \<Rightarrow> Inr m)"

text \<open>The 5-bit index that the encoder takes from bit \<open>k\<close> of a loaded word, as a byte.\<close>

definition idx :: "32 word \<Rightarrow> nat \<Rightarrow> byte" where
  "idx w k = ucast (drop_bit k w AND 0x1F)"

text \<open>
  A result of a copy that ends the relay gracefully: no error, or end of input.
\<close>

definition graceful :: "error option \<Rightarrow> bool" where
  "graceful r = (r = None \<or> r = Some EOF)"

text \<open>
  Messages and wire bytes for the closed examples: the response that \<open>CreateResponse\<close>
  builds for a payload on the dummy query of the server, the query that \<open>CreateQuery\<close>
  builds for a payload, and two byte strings that stand for packed messages.
\<close>

definition example_domain :: string where
  "example_domain = ''tunnel.example.com''"

definition example_response :: "byte list \<Rightarrow> Msg" where
  "example_response payload =
     (case CreateResponse (dummyQuery 1 example_domain) payload of
        Inl panic \<Rightarrow> new_Msg
      | Inr msg \<Rightarrow> msg)"

definition example_query :: "byte list \<Rightarrow> Msg" where
  "example_query payload =
     (case CreateQuery 1 payload example_domain of
        Inl err \<Rightarrow> new_Msg
      | Inr msg \<Rightarrow> msg)"

definition wire_A :: "byte list" where
  "wire_A = [0x00, 0x01, 0x81, 0x80, 0x00, 0x01, 0x00, 0x01, 0x00, 0x00, 0x00, 0x00, 0x0A, 0x0B]"

definition wire_B :: "byte list" where
  "wire_B = [0x00, 0x02, 0x81, 0x80, 0x00, 0x01, 0x00, 0x01, 0x00, 0x00, 0x00, 0x00, 0x0C, 0x0D]"


section \<open>Base32: decoding inverts encoding\<close>

text \<open>
  Bit by bit: the five bytes that the decoder assembles from the eight 5-bit indices of a
  group are the five bytes the encoder loaded.
\<close>

lemma and_1F: "(w :: 'a::len word) AND 0x1F = take_bit 5 w"
proof -
  have "(0x1F :: 'a word) = mask 5" by (simp add: mask_eq_exp_minus_1)
  then show ?thesis by (simp add: take_bit_eq_mask)
qed

lemma idx_bit: "bit (idx w k) n \<longleftrightarrow> n < 5 \<and> bit w (k + n)"
  by (auto simp add: idx_def and_1F bit_simps)

lemma bit_push_idx:
  "bit (push_bit k (idx w j)) n \<longleftrightarrow> k \<le> n \<and> n < 8 \<and> n - k < 5 \<and> bit w (j + (n - k))"
  by (auto simp add: idx_bit bit_simps)

lemma bit_drop_idx:
  "bit (drop_bit k (idx w j)) n \<longleftrightarrow> k + n < 5 \<and> bit w (j + (k + n))"
  by (auto simp add: idx_bit bit_simps)

lemma hi32_bit: "bit (hi32 b0 b1 b2 b3) n \<longleftrightarrow>
   (if n < 8 then bit b3 n else if n < 16 then bit b2 (n - 8) else if n < 24 then bit b1 (n - 16)
    else n < 32 \<and> bit b0 (n - 24))"
  by (auto simp add: hi32_def bit_simps dest: bit_imp_le_length)

lemma lo32_bit: "bit (lo32 (hi32 b0 b1 b2 b3) b4) n \<longleftrightarrow>
   (if n < 8 then bit b4 n else if n < 16 then bit b3 (n - 8) else if n < 24 then bit b2 (n - 16)
    else n < 32 \<and> bit b1 (n - 24))"
  by (auto simp add: lo32_def hi32_bit bit_simps dest: bit_imp_le_length)

lemma byte_bit_cases:
  assumes "n < (8::nat)"
  obtains (b0) "n = 0" | (b1) "n = 1" | (b2) "n = 2" | (b3) "n = 3"
    | (b4) "n = 4" | (b5) "n = 5" | (b6) "n = 6" | (b7) "n = 7"
  using assms by atomize_elim arith

lemmas quantum_bits = bit_or_iff bit_push_idx bit_drop_idx idx_bit hi32_bit lo32_bit

lemma group_byte0: "push_bit 3 (idx (hi32 b0 b1 b2 b3) 27) OR drop_bit 2 (idx (hi32 b0 b1 b2 b3) 22) = b0"
proof (rule bit_word_eqI)
  fix n assume "n < LENGTH(8)"
  then have "n < 8" by simp
  then show "bit (push_bit 3 (idx (hi32 b0 b1 b2 b3) 27) OR drop_bit 2 (idx (hi32 b0 b1 b2 b3) 22)) n = bit b0 n"
    unfolding quantum_bits by (cases n rule: byte_bit_cases) simp_all
qed

lemma group_byte1: "push_bit 6 (idx (hi32 b0 b1 b2 b3) 22) OR push_bit 1 (idx (hi32 b0 b1 b2 b3) 17)
   OR drop_bit 4 (idx (hi32 b0 b1 b2 b3) 12) = b1"
proof (rule bit_word_eqI)
  fix n assume "n < LENGTH(8)"
  then have "n < 8" by simp
  then show "bit (push_bit 6 (idx (hi32 b0 b1 b2 b3) 22) OR push_bit 1 (idx (hi32 b0 b1 b2 b3) 17)
   OR drop_bit 4 (idx (hi32 b0 b1 b2 b3) 12)) n = bit b1 n"
    unfolding quantum_bits by (cases n rule: byte_bit_cases) simp_all
qed

lemma group_byte2: "push_bit 4 (idx (hi32 b0 b1 b2 b3) 12) OR drop_bit 1 (idx (hi32 b0 b1 b2 b3) 7) = b2"
proof (rule bit_word_eqI)
  fix n assume "n < LENGTH(8)"
  then have "n < 8" by simp
  then show "bit (push_bit 4 (idx (hi32 b0 b1 b2 b3) 12) OR drop_bit 1 (idx (hi32 b0 b1 b2 b3) 7)) n = bit b2 n"
    unfolding quantum_bits by (cases n rule: byte_bit_cases) simp_all
qed

lemma group_byte3: "push_bit 7 (idx (hi32 b0 b1 b2 b3) 7) OR push_bit 2 (idx (hi32 b0 b1 b2 b3) 2)
   OR drop_bit 3 (idx (lo32 (hi32 b0 b1 b2 b3) b4) 5) = b3"
proof (rule bit_word_eqI)
  fix n assume "n < LENGTH(8)"
  then have "n < 8" by simp
  then show "bit (push_bit 7 (idx (hi32 b0 b1 b2 b3) 7) OR push_bit 2 (idx (hi32 b0 b1 b2 b3) 2)
   OR drop_bit 3 (idx (lo32 (hi32 b0 b1 b2 b3) b4) 5)) n = bit b3 n"
    unfolding quantum_bits by (cases n rule: byte_bit_cases) simp_all
qed

lemma group_byte4: "push_bit 5 (idx (lo32 (hi32 b0 b1 b2 b3) b4) 5) OR idx (lo32 (hi32 b0 b1 b2 b3) b4) 0 = b4"
proof (rule bit_word_eqI)
  fix n assume "n < LENGTH(8)"
  then have "n < 8" by simp
  then show "bit (push_bit 5 (idx (lo32 (hi32 b0 b1 b2 b3) b4) 5) OR idx (lo32 (hi32 b0 b1 b2 b3) b4) 0) n = bit b4 n"
    unfolding quantum_bits by (cases n rule: byte_bit_cases) (simp_all add: numeral_2_eq_2)
qed

lemma decodeMap_alphabet: "map decodeMap encodeStd = map of_nat [0..<32]"
  by (simp add: decodeMap_def encodeStd_def upt_rec)

lemma alphabet_chars:
  "list_all (\<lambda>c. upper_char (lower_char c) = c \<and> lower_char c \<noteq> CHR ''.'' \<and> c \<noteq> CHR 0x0D \<and> c \<noteq> CHR 0x0A)
     encodeStd"
  by (simp add: encodeStd_def lower_char_def upper_char_def char_of_def bit_0)


lemma unat_and_1F: "unat ((v :: 32 word) AND 0x1F) < 32"
proof -
  have "unat (v AND 0x1F) \<le> unat (0x1F :: 32 word)"
    by (rule word_and_le1 [THEN word_le_nat_alt [THEN iffD1]])
  then show ?thesis by simp
qed

lemma length_encodeStd: "length encodeStd = 32"
  by (simp add: encodeStd_def)

lemma enc_in_alphabet: "enc v \<in> set encodeStd"
  unfolding enc_def by (rule nth_mem) (simp add: length_encodeStd unat_and_1F)

lemma decodeMap_enc: "decodeMap (enc w) = ucast (w AND 0x1F)"
proof -
  let ?i = "unat (w AND 0x1F)"
  have i: "?i < 32" by (rule unat_and_1F)
  have "decodeMap (encodeStd ! ?i) = map decodeMap encodeStd ! ?i"
    using i by (simp add: length_encodeStd)
  also have "\<dots> = of_nat ([0..<32] ! ?i)"
    unfolding decodeMap_alphabet using i by (subst nth_map) simp_all
  also have "\<dots> = of_nat ?i"
    using i by simp
  finally show ?thesis by (simp add: enc_def)
qed

lemma idx_not_FF: "idx w k \<noteq> 0xFF"
proof
  assume "idx w k = 0xFF"
  then have "bit (idx w k) 7 = bit (0xFF :: byte) 7" by simp
  then show False by (simp add: idx_bit)
qed

lemma length_encode_block: "length (encode_block b0 b1 b2 b3 b4) = 8"
  by (simp add: encode_block_def Let_def)

lemma map_decodeMap_block:
  "map decodeMap (encode_block b0 b1 b2 b3 b4) =
     [idx (hi32 b0 b1 b2 b3) 27, idx (hi32 b0 b1 b2 b3) 22, idx (hi32 b0 b1 b2 b3) 17,
      idx (hi32 b0 b1 b2 b3) 12, idx (hi32 b0 b1 b2 b3) 7, idx (hi32 b0 b1 b2 b3) 2,
      idx (lo32 (hi32 b0 b1 b2 b3) b4) 5, idx (lo32 (hi32 b0 b1 b2 b3) b4) 0]"
  by (simp add: encode_block_def Let_def decodeMap_enc idx_def)

lemma decode_block_list:
  "decode_block [c0, c1, c2, c3, c4, c5, c6, c7] =
     [push_bit 3 c0 OR drop_bit 2 c1,
      push_bit 6 c1 OR push_bit 1 c2 OR drop_bit 4 c3,
      push_bit 4 c3 OR drop_bit 1 c4,
      push_bit 7 c4 OR push_bit 2 c5 OR drop_bit 3 c6,
      push_bit 5 c6 OR c7]"
  by (simp add: decode_block_def)

lemma take_lits:
  "take 5 [a, b, c, d, e] = [a, b, c, d, e]"
  "take 4 [a, b, c, d, e] = [a, b, c, d]"
  "take 3 [a, b, c, d, e] = [a, b, c]"
  "take 2 [a, b, c, d, e] = [a, b]"
  "take 1 [a, b, c, d, e] = [a]"
  by simp_all

lemma decode_block_8:
  "take 5 (decode_block
     [idx (hi32 b0 b1 b2 b3) 27, idx (hi32 b0 b1 b2 b3) 22, idx (hi32 b0 b1 b2 b3) 17,
      idx (hi32 b0 b1 b2 b3) 12, idx (hi32 b0 b1 b2 b3) 7, idx (hi32 b0 b1 b2 b3) 2,
      idx (lo32 (hi32 b0 b1 b2 b3) b4) 5, idx (lo32 (hi32 b0 b1 b2 b3) b4) 0]) = [b0, b1, b2, b3, b4]"
  by (simp only: decode_block_list take_lits group_byte0 group_byte1 group_byte2 group_byte3 group_byte4)

lemma decode_block_7:
  "take 4 (decode_block
     [idx (hi32 b0 b1 b2 b3) 27, idx (hi32 b0 b1 b2 b3) 22, idx (hi32 b0 b1 b2 b3) 17,
      idx (hi32 b0 b1 b2 b3) 12, idx (hi32 b0 b1 b2 b3) 7, idx (hi32 b0 b1 b2 b3) 2,
      idx (lo32 (hi32 b0 b1 b2 b3) b4) 5, c7]) = [b0, b1, b2, b3]"
  by (simp only: decode_block_list take_lits group_byte0 group_byte1 group_byte2 group_byte3)

lemma decode_block_5:
  "take 3 (decode_block
     [idx (hi32 b0 b1 b2 b3) 27, idx (hi32 b0 b1 b2 b3) 22, idx (hi32 b0 b1 b2 b3) 17,
      idx (hi32 b0 b1 b2 b3) 12, idx (hi32 b0 b1 b2 b3) 7, c5, c6, c7]) = [b0, b1, b2]"
  by (simp only: decode_block_list take_lits group_byte0 group_byte1 group_byte2)

lemma decode_block_4:
  "take 2 (decode_block
     [idx (hi32 b0 b1 b2 b3) 27, idx (hi32 b0 b1 b2 b3) 22, idx (hi32 b0 b1 b2 b3) 17,
      idx (hi32 b0 b1 b2 b3) 12, c4, c5, c6, c7]) = [b0, b1]"
  by (simp only: decode_block_list take_lits group_byte0 group_byte1)

lemma decode_block_2:
  "take 1 (decode_block
     [idx (hi32 b0 b1 b2 b3) 27, idx (hi32 b0 b1 b2 b3) 22, c2, c3, c4, c5, c6, c7]) = [b0]"
  by (simp only: decode_block_list take_lits group_byte0)

lemma replicate_lits:
  "replicate 1 x = [x]"
  "replicate 3 x = [x, x, x]"
  "replicate 4 x = [x, x, x, x]"
  "replicate 6 x = [x, x, x, x, x, x]"
  by (simp_all add: numeral_eq_Suc)

lemma decode_Nil: "decode [] = Inr []"
  by (simp add: decode.simps)

lemma decode_full:
  assumes "decode rest = Inr bs"
  shows "decode (encode_block b0 b1 b2 b3 b4 @ rest) = Inr ([b0, b1, b2, b3, b4] @ bs)"
proof -
  let ?blk = "encode_block b0 b1 b2 b3 b4"
  have nz: "?blk @ rest \<noteq> []" using length_encode_block [of b0 b1 b2 b3 b4] by auto
  have tk: "take 8 (?blk @ rest) = ?blk" and dr: "drop 8 (?blk @ rest) = rest"
    by (simp_all add: length_encode_block)
  show ?thesis
    apply (subst decode.simps)
    apply (simp only: nz tk dr if_False Let_def length_encode_block map_decodeMap_block assms)
    apply (simp add: idx_not_FF decoded_len_def decode_block_8 del: take_Cons_numeral)
    done
qed


lemma decode_tail7: "decode (take 7 (encode_block b0 b1 b2 b3 0)) = Inr [b0, b1, b2, b3]"
proof -
  let ?src = "take 7 (encode_block b0 b1 b2 b3 0)"
  have len: "length ?src = 7" by (simp add: length_encode_block)
  have nz: "?src \<noteq> []" using len by auto
  have tk: "take 8 ?src = ?src" and dr: "drop 8 ?src = []"
    by (simp_all add: length_encode_block)
  have mp: "map decodeMap ?src = take 7 (map decodeMap (encode_block b0 b1 b2 b3 0))"
    by (simp add: take_map)
  show ?thesis
    apply (subst decode.simps)
    apply (simp only: nz tk dr if_False Let_def len mp map_decodeMap_block decode_Nil)
    apply (simp add: idx_not_FF decoded_len_def decode_block_7)
    done
qed

lemma decode_tail5: "decode (take 5 (encode_block b0 b1 b2 0 0)) = Inr [b0, b1, b2]"
proof -
  let ?src = "take 5 (encode_block b0 b1 b2 0 0)"
  have len: "length ?src = 5" by (simp add: length_encode_block)
  have nz: "?src \<noteq> []" using len by auto
  have tk: "take 8 ?src = ?src" and dr: "drop 8 ?src = []"
    by (simp_all add: length_encode_block)
  have mp: "map decodeMap ?src = take 5 (map decodeMap (encode_block b0 b1 b2 0 0))"
    by (simp add: take_map)
  show ?thesis
    apply (subst decode.simps)
    apply (simp only: nz tk dr if_False Let_def len mp map_decodeMap_block decode_Nil)
    apply (simp add: idx_not_FF decoded_len_def decode_block_5 replicate_lits)
    done
qed

lemma decode_tail4: "decode (take 4 (encode_block b0 b1 0 0 0)) = Inr [b0, b1]"
proof -
  let ?src = "take 4 (encode_block b0 b1 0 0 0)"
  have len: "length ?src = 4" by (simp add: length_encode_block)
  have nz: "?src \<noteq> []" using len by auto
  have tk: "take 8 ?src = ?src" and dr: "drop 8 ?src = []"
    by (simp_all add: length_encode_block)
  have mp: "map decodeMap ?src = take 4 (map decodeMap (encode_block b0 b1 0 0 0))"
    by (simp add: take_map)
  show ?thesis
    apply (subst decode.simps)
    apply (simp only: nz tk dr if_False Let_def len mp map_decodeMap_block decode_Nil)
    apply (simp add: idx_not_FF decoded_len_def decode_block_4 replicate_lits)
    done
qed

lemma decode_tail2: "decode (take 2 (encode_block b0 0 0 0 0)) = Inr [b0]"
proof -
  let ?src = "take 2 (encode_block b0 0 0 0 0)"
  have len: "length ?src = 2" by (simp add: length_encode_block)
  have nz: "?src \<noteq> []" using len by auto
  have tk: "take 8 ?src = ?src" and dr: "drop 8 ?src = []"
    by (simp_all add: length_encode_block)
  have mp: "map decodeMap ?src = take 2 (map decodeMap (encode_block b0 0 0 0 0))"
    by (simp add: take_map)
  show ?thesis
    apply (subst decode.simps)
    apply (simp only: nz tk dr if_False Let_def len mp map_decodeMap_block decode_Nil)
    apply (simp add: idx_not_FF decoded_len_def decode_block_2 [unfolded One_nat_def] replicate_lits)
    done
qed

lemma decode_EncodeToString: "decode (EncodeToString p) = Inr p"
proof (induction p rule: EncodeToString.induct)
  case (1 b0 b1 b2 b3 b4 src)
  then show ?case using decode_full [of "EncodeToString src" src b0 b1 b2 b3 b4] by simp
qed (simp_all add: decode_tail7 decode_tail5 decode_tail4 decode_tail2 decode_Nil)

lemma set_encode_block: "set (encode_block b0 b1 b2 b3 b4) \<subseteq> set encodeStd"
  by (simp add: encode_block_def Let_def enc_in_alphabet)

lemma set_take_encode_block: "set (take k (encode_block b0 b1 b2 b3 b4)) \<subseteq> set encodeStd"
  using set_take_subset [of k "encode_block b0 b1 b2 b3 b4"] set_encode_block [of b0 b1 b2 b3 b4]
  by (rule subset_trans)

lemma set_EncodeToString: "set (EncodeToString p) \<subseteq> set encodeStd"
proof (induction p rule: EncodeToString.induct)
  case (1 b0 b1 b2 b3 b4 src)
  then show ?case using set_encode_block [of b0 b1 b2 b3 b4] by simp
qed (simp_all only: EncodeToString.simps set_take_encode_block, simp)

lemma alphabet_char:
  assumes "c \<in> set encodeStd"
  shows "upper_char (lower_char c) = c" "lower_char c \<noteq> CHR ''.''"
    "c \<noteq> CHR 0x0D" "c \<noteq> CHR 0x0A"
  using alphabet_chars assms unfolding list_all_iff by blast+

lemma ToUpper_ToLower_alphabet: "set s \<subseteq> set encodeStd \<Longrightarrow> ToUpper (ToLower s) = s"
  by (induction s) (simp_all add: ToUpper_def ToLower_def alphabet_char)

lemma stripNewlines_alphabet: "set s \<subseteq> set encodeStd \<Longrightarrow> stripNewlines s = s"
  unfolding stripNewlines_def by (rule filter_True) (auto dest: alphabet_char(3,4))

lemma ToLower_no_dot: "set s \<subseteq> set encodeStd \<Longrightarrow> CHR ''.'' \<notin> set (ToLower s)"
proof
  assume "CHR ''.'' \<in> set (ToLower s)"
  then obtain c where "c \<in> set s" "lower_char c = CHR ''.''"
    by (auto simp: ToLower_def)
  moreover assume "set s \<subseteq> set encodeStd"
  ultimately show False using alphabet_char(2) by blast
qed

lemma concat_split_labels: "concat (split_labels s) = s"
proof (induction s rule: split_labels.induct)
  case (1 encoded)
  show ?case
  proof (cases "length encoded > 0")
    case True
    then show ?thesis using 1 by (subst split_labels.simps) (simp add: Let_def)
  next
    case False
    then show ?thesis by (subst split_labels.simps) simp
  qed
qed

lemma split_labels_bounds:
  "l \<in> set (split_labels s) \<Longrightarrow> 1 \<le> length l \<and> length l \<le> 63"
proof (induction s rule: split_labels.induct)
  case (1 encoded)
  show ?case
  proof (cases "length encoded > 0")
    case True
    let ?n = "if length encoded < MaxLabelLength then length encoded else MaxLabelLength"
    from 1(2) True have "l = take ?n encoded \<or> l \<in> set (split_labels (drop ?n encoded))"
      by (subst (asm) split_labels.simps) (simp add: Let_def)
    then show ?thesis
    proof
      assume "l = take ?n encoded"
      then show ?thesis using True by (auto simp: MaxLabelLength_def Suc_le_eq)
    next
      assume "l \<in> set (split_labels (drop ?n encoded))"
      then show ?thesis using 1(1) [OF True refl] by simp
    qed
  next
    case False
    then show ?thesis using 1(2) by (subst (asm) split_labels.simps) simp
  qed
qed

lemma remove_dots_Join:
  "\<forall>l \<in> set ls. CHR ''.'' \<notin> set l \<Longrightarrow> remove_dots (Join ls ''.'') = concat ls"
proof (induction ls "''.''" rule: Join.induct)
  case 1
  then show ?case by (simp add: remove_dots_def)
next
  case (2 l)
  then show ?case by (auto simp add: remove_dots_def filter_id_conv)
next
  case (3 l v va)
  then show ?case by (auto simp add: remove_dots_def filter_id_conv)
qed

lemma set_split_labels: "l \<in> set (split_labels s) \<Longrightarrow> set l \<subseteq> set s"
  using concat_split_labels [of s] by (metis Sup_upper image_eqI set_concat)

lemma DecodeSubdomain_EncodeSubdomain: "DecodeSubdomain (EncodeSubdomain p) = Inr p"
proof (cases "p = []")
  case True
  then show ?thesis
    by (simp add: DecodeSubdomain_def EncodeSubdomain_def remove_dots_def ToUpper_def
        DecodeString_def stripNewlines_def decode_Nil)
next
  case False
  let ?E = "EncodeToString p"
  have al: "set ?E \<subseteq> set encodeStd" by (rule set_EncodeToString)
  have nodot: "\<forall>l \<in> set (split_labels (ToLower ?E)). CHR ''.'' \<notin> set l"
    using ToLower_no_dot [OF al] set_split_labels by blast
  have "remove_dots (EncodeSubdomain p) = ToLower ?E"
    using False by (simp add: EncodeSubdomain_def remove_dots_Join [OF nodot] concat_split_labels)
  then show ?thesis
    by (simp add: DecodeSubdomain_def DecodeString_def ToUpper_ToLower_alphabet [OF al]
        stripNewlines_alphabet [OF al] decode_EncodeToString)
qed

text \<open>
  Claim C1. For every byte sequence \<open>p\<close>, decoding the encoded subdomain returns exactly
  \<open>p\<close>, with no error; the empty payload encodes to the empty string, and the empty string
  decodes to the empty payload.
\<close>

theorem C1_subdomain_roundtrip:
  "DecodeSubdomain (EncodeSubdomain p) = Inr p \<and>
   EncodeSubdomain [] = [] \<and>
   DecodeSubdomain [] = Inr []"
proof -
  have "EncodeSubdomain [] = []"
    by (simp add: EncodeSubdomain_def)
  moreover have "DecodeSubdomain [] = Inr []"
    using DecodeSubdomain_EncodeSubdomain [of "[]"] by (simp add: EncodeSubdomain_def)
  ultimately show ?thesis
    using DecodeSubdomain_EncodeSubdomain [of p] by simp
qed

section \<open>Labels of an encoded subdomain\<close>

lemma Split_dot_not_Nil: "Split_dot s \<noteq> []"
  by (induction s) (auto split: list.splits)

lemma Split_dot_plain: "CHR ''.'' \<notin> set l \<Longrightarrow> Split_dot l = [l]"
  by (induction l) auto

lemma Split_dot_label:
  "CHR ''.'' \<notin> set l \<Longrightarrow> Split_dot (l @ ''.'' @ rest) = l # Split_dot rest"
  by (induction l) auto

lemma Split_dot_Join:
  "ls \<noteq> [] \<Longrightarrow> \<forall>l \<in> set ls. CHR ''.'' \<notin> set l \<Longrightarrow> Split_dot (Join ls ''.'') = ls"
proof (induction ls "''.''" rule: Join.induct)
  case 1
  then show ?case by simp
next
  case (2 l)
  then show ?case by (simp add: Split_dot_plain)
next
  case (3 l v va)
  then show ?case using Split_dot_label [of l "Join (v # va) ''.''"] by simp
qed

lemma split_labels_Nil_iff: "split_labels s = [] \<longleftrightarrow> s = []"
  by (subst split_labels.simps) (simp add: Let_def)

lemma split_labels_Nil: "split_labels [] = []"
  by (simp add: split_labels_Nil_iff)

lemma Join_Nil_iff: "Join ls sep = [] \<longleftrightarrow> concat ls = [] \<and> (length ls \<le> 1 \<or> sep = [])"
  by (induction ls sep rule: Join.induct) auto

lemma EncodeToString_Nil_iff: "EncodeToString p = [] \<longleftrightarrow> p = []"
  by (induction p rule: EncodeToString.induct) (simp_all add: encode_block_def Let_def)

lemma labels_of_EncodeSubdomain:
  "labels_of (EncodeSubdomain p) = split_labels (ToLower (EncodeToString p))"
proof (cases "p = []")
  case True
  then show ?thesis
    by (simp add: labels_of_def EncodeSubdomain_def ToLower_def split_labels_Nil)
next
  case False
  let ?L = "ToLower (EncodeToString p)"
  have ne: "?L \<noteq> []" using False by (simp add: ToLower_def EncodeToString_Nil_iff)
  have nodot: "\<forall>l \<in> set (split_labels ?L). CHR ''.'' \<notin> set l"
    using ToLower_no_dot [OF set_EncodeToString] set_split_labels by blast
  have lne: "split_labels ?L \<noteq> []" using ne by (simp add: split_labels_Nil_iff)
  have "Join (split_labels ?L) ''.'' \<noteq> []"
    using ne by (simp add: Join_Nil_iff concat_split_labels)
  then show ?thesis
    using False by (simp add: labels_of_def EncodeSubdomain_def Split_dot_Join [OF lne nodot])
qed

text \<open>
  Claim C6. For every byte sequence \<open>p\<close>, every dot-separated label of
  \<open>EncodeSubdomain p\<close> has at least 1 and at most 63 characters.
\<close>

theorem C6_label_lengths:
  "\<forall>l \<in> set (labels_of (EncodeSubdomain p)). 1 \<le> length l \<and> length l \<le> 63"
  unfolding labels_of_EncodeSubdomain using split_labels_bounds by blast

theorem C6_label_lengths_witness:
  "labels_of (EncodeSubdomain (replicate 40 0xFF)) = [replicate 63 CHR ''7'', ''7''] \<and>
   1 \<le> length (replicate 63 CHR ''7'') \<and> length (replicate 63 CHR ''7'') \<le> 63 \<and>
   1 \<le> length ''7'' \<and> length ''7'' \<le> 63"
proof -
  have eq: "labels_of (EncodeSubdomain (replicate 40 0xFF)) = [replicate 63 CHR ''7'', ''7'']"
    by code_simp
  from C6_label_lengths [of "replicate 40 0xFF"]
  have "\<forall>l \<in> set [replicate 63 CHR ''7'', ''7'']. 1 \<le> length l \<and> length l \<le> 63"
    unfolding eq .
  then show ?thesis using eq by simp
qed

section \<open>Maximum payload size\<close>

lemma wrap64_id: "- (2 ^ 63) \<le> x \<Longrightarrow> x < 2 ^ 63 \<Longrightarrow> wrap64 x = x"
  unfolding wrap64_def by (rule signed_take_bit_int_eq_self) simp_all

lemma quo_8: "quo a 8 = (if 0 \<le> a then a div 8 else - ((- a) div 8))"
  by (auto simp: quo_def)

lemma CalculateMaxPayloadSize_exact:
  assumes "- (2 ^ 60) \<le> d" "d \<le> 2 ^ 60"
  shows "CalculateMaxPayloadSize d = quo ((253 - d - 2) * 5) 8"
proof -
  have a: "wrap64 (253 - d) = 253 - d"
    using assms by (simp add: wrap64_id)
  have b: "wrap64 (253 - d - 2) = 253 - d - 2"
    using assms by (simp add: wrap64_id)
  have c: "wrap64 ((253 - d - 2) * 5) = (253 - d - 2) * 5"
    using assms by (simp add: wrap64_id)
  have "\<bar>quo ((253 - d - 2) * 5) 8\<bar> \<le> \<bar>(253 - d - 2) * 5\<bar>"
    by (auto simp: quo_8)
  then have d: "wrap64 (quo ((253 - d - 2) * 5) 8) = quo ((253 - d - 2) * 5) 8"
    using assms by (intro wrap64_id) simp_all
  show ?thesis
    unfolding CalculateMaxPayloadSize_def Let_def MaxDomainLength_def
    by (simp only: a b c d)
qed

lemma quo_8_mono:
  assumes "a \<le> b"
  shows "quo a 8 \<le> quo b 8"
proof -
  consider "0 \<le> a" | "a < 0" "0 \<le> b" | "a < 0" "b < 0" by linarith
  then show ?thesis
  proof cases
    case 1
    then show ?thesis using assms by (simp add: quo_8 zdiv_mono1)
  next
    case 2
    have "0 \<le> (- a) div 8" using 2 by simp
    moreover have "0 \<le> b div 8" using 2 by simp
    ultimately show ?thesis using 2 by (simp add: quo_8)
  next
    case 3
    have "(- b) div 8 \<le> (- a) div 8" using assms by (intro zdiv_mono1) simp_all
    then show ?thesis using 3 by (simp add: quo_8)
  qed
qed

text \<open>
  Claim C5. \<open>CalculateMaxPayloadSize\<close> is monotonically non-increasing in the domain-name
  length, and its value for the configured domain name \<open>tunnel.example.com\<close> (length 18)
  is not negative. Lengths are taken up to \<open>2 ^ 60\<close> in absolute value, far beyond the
  length of any string, so that the 64-bit arithmetic does not overflow.
\<close>

theorem C5_max_payload_monotone:
  "(- (2 ^ 60) \<le> d1 \<and> d1 \<le> d2 \<and> d2 \<le> 2 ^ 60 \<longrightarrow>
      CalculateMaxPayloadSize d2 \<le> CalculateMaxPayloadSize d1) \<and>
   0 \<le> CalculateMaxPayloadSize (int (length ''tunnel.example.com''))"
proof -
  have "CalculateMaxPayloadSize 18 = 145" by code_simp
  moreover have "CalculateMaxPayloadSize d2 \<le> CalculateMaxPayloadSize d1"
    if "- (2 ^ 60) \<le> d1" "d1 \<le> d2" "d2 \<le> 2 ^ 60"
  proof -
    have le: "(253 - d2 - 2) * 5 \<le> (253 - d1 - 2) * 5" using that by simp
    have e1: "CalculateMaxPayloadSize d1 = quo ((253 - d1 - 2) * 5) 8"
      using that by (intro CalculateMaxPayloadSize_exact) linarith+
    have e2: "CalculateMaxPayloadSize d2 = quo ((253 - d2 - 2) * 5) 8"
      using that by (intro CalculateMaxPayloadSize_exact) linarith+
    show ?thesis unfolding e1 e2 using le by (rule quo_8_mono)
  qed
  ultimately show ?thesis by simp
qed

theorem C5_max_payload_monotone_witness:
  "- (2 ^ 60) \<le> (18::int) \<and> (18::int) \<le> 253 \<and> (253::int) \<le> 2 ^ 60 \<and>
   CalculateMaxPayloadSize 253 \<le> CalculateMaxPayloadSize 18 \<and>
   CalculateMaxPayloadSize 18 = 145 \<and> CalculateMaxPayloadSize 253 = - 1"
proof -
  have h: "- (2 ^ 60) \<le> (18::int) \<and> (18::int) \<le> 253 \<and> (253::int) \<le> 2 ^ 60"
    by simp
  then have "CalculateMaxPayloadSize 253 \<le> CalculateMaxPayloadSize 18"
    using C5_max_payload_monotone [of 18 253] by blast
  moreover have "CalculateMaxPayloadSize 18 = 145" "CalculateMaxPayloadSize 253 = - 1"
    by code_simp+
  ultimately show ?thesis using h by simp
qed

section \<open>Responses\<close>

lemma concat_txt_chunks: "concat (txt_chunks data) = data"
proof (induction data rule: txt_chunks.induct)
  case (1 data)
  show ?case
  proof (cases "length data > 0")
    case True
    then show ?thesis using 1 by (subst txt_chunks.simps) (simp add: Let_def)
  next
    case False
    then show ?thesis by (subst txt_chunks.simps) simp
  qed
qed

lemma txt_chunks_bounds:
  "c \<in> set (txt_chunks data) \<Longrightarrow> 1 \<le> length c \<and> length c \<le> 255"
proof (induction data rule: txt_chunks.induct)
  case (1 data)
  show ?case
  proof (cases "length data > 0")
    case True
    let ?n = "if length data < 255 then length data else 255"
    from 1(2) True have "c = take ?n data \<or> c \<in> set (txt_chunks (drop ?n data))"
      by (subst (asm) txt_chunks.simps) (simp add: Let_def)
    then show ?thesis
    proof
      assume "c = take ?n data"
      then show ?thesis using True by (auto simp: Suc_le_eq)
    next
      assume "c \<in> set (txt_chunks (drop ?n data))"
      then show ?thesis using 1(1) [OF True refl] by simp
    qed
  next
    case False
    then show ?thesis using 1(2) by (subst (asm) txt_chunks.simps) simp
  qed
qed

lemma txt_chunks_600:
  assumes "length data = 600"
  shows "map length (txt_chunks data) = [255, 255, 90]"
proof -
  have c1: "txt_chunks data = take 255 data # txt_chunks (drop 255 data)"
    using assms by (subst txt_chunks.simps) simp
  have c2: "txt_chunks (drop 255 data) = take 255 (drop 255 data) # txt_chunks (drop 510 data)"
    using assms by (subst txt_chunks.simps) simp
  have c3: "txt_chunks (drop 510 data) = drop 510 data # txt_chunks []"
    using assms by (subst txt_chunks.simps) simp
  have c4: "txt_chunks [] = []"
    by (subst txt_chunks.simps) simp
  show ?thesis using assms by (simp add: c1 c2 c3 c4)
qed

lemma foldl_append_strings: "foldl (\<lambda>data s. data @ s) acc strs = acc @ concat strs"
  by (induction strs arbitrary: acc) simp_all

lemma Answer_SetReply_new: "Answer (SetReply q new_Msg) = []"
  by (simp add: SetReply_def new_Msg_def Let_def split: list.splits)

lemma Rcode_SetReply: "Rcode (SetReply q m) = RcodeSuccess"
  by (simp add: SetReply_def Let_def split: list.splits)

lemma CreateResponse_empty:
  "CreateResponse q [] = Inr ((SetReply q new_Msg)\<lparr>Rcode := RcodeNameError\<rparr>)"
  by (simp add: CreateResponse_def Let_def)

lemma CreateResponse_nonempty:
  assumes "p \<noteq> []" "Questions q = qu # qs"
  shows "\<exists>m h. CreateResponse q p = Inr m \<and> Rcode m = RcodeSuccess \<and>
           Answer m = [TXT h (txt_chunks p)]"
proof (cases "IsEdns0 q")
  case None
  then show ?thesis
    using assms by (simp add: CreateResponse_def Let_def Answer_SetReply_new Rcode_SetReply)
next
  case (Some opt)
  then show ?thesis
    using assms by (simp add: CreateResponse_def Let_def Answer_SetReply_new Rcode_SetReply)
qed

text \<open>
  Claim C3. For every byte sequence \<open>p\<close>, parsing the response built for \<open>p\<close> returns
  \<open>p\<close>. An empty \<open>p\<close> gives a message with the name-error code and no answer, which
  parses to the empty payload; a non-empty \<open>p\<close> is cut, in order, into TXT strings of at
  most 255 bytes whose concatenation is \<open>p\<close>, and 600 bytes are cut into strings of
  255, 255 and 90 bytes. The query has a question, or \<open>p\<close> is empty (claim C10).
\<close>

theorem C3_response_roundtrip:
  assumes "p = [] \<or> Questions q \<noteq> []"
  shows "\<exists>m. CreateResponse q p = Inr m \<and> ParseResponseData rcodeToString m = Inr p \<and>
           (if p = [] then Rcode m = RcodeNameError \<and> Answer m = []
            else Rcode m = RcodeSuccess \<and> (\<exists>h. Answer m = [TXT h (txt_chunks p)]) \<and>
                 list_all (\<lambda>c. length c \<le> 255) (txt_chunks p) \<and>
                 concat (txt_chunks p) = p \<and>
                 (length p = 600 \<longrightarrow> map length (txt_chunks p) = [255, 255, 90]))"
proof (cases "p = []")
  case True
  then show ?thesis
    by (simp add: CreateResponse_empty ParseResponseData_def Answer_SetReply_new)
next
  case False
  with assms obtain qu qs where q: "Questions q = qu # qs"
    by (cases "Questions q") auto
  from CreateResponse_nonempty [OF False q] obtain m h where
    m: "CreateResponse q p = Inr m" "Rcode m = RcodeSuccess" "Answer m = [TXT h (txt_chunks p)]"
    by blast
  have chunks: "list_all (\<lambda>c. length c \<le> 255) (txt_chunks p)"
    unfolding list_all_iff using txt_chunks_bounds by blast
  show ?thesis
    using False chunks
    by (simp add: m ParseResponseData_def RcodeSuccess_def RcodeNameError_def
        foldl_append_strings concat_txt_chunks txt_chunks_600)
qed

theorem C3_response_roundtrip_witness:
  "Questions (dummyQuery 1 ''tunnel.example.com'') \<noteq> [] \<and>
   response_roundtrip (\<lambda>rc. []) (dummyQuery 1 ''tunnel.example.com'') (replicate 600 0x41) =
     Inr (replicate 600 0x41) \<and>
   map length (txt_chunks (replicate 600 0x41)) = [255, 255, 90]"
proof -
  let ?q = "dummyQuery 1 ''tunnel.example.com''"
  let ?p = "replicate 600 (0x41 :: byte)"
  have q: "Questions ?q \<noteq> []" by (simp add: dummyQuery_def SetQuestion_def)
  then have "?p = [] \<or> Questions ?q \<noteq> []" by simp
  from C3_response_roundtrip [OF this, of "\<lambda>rc. []"] obtain m where
    "CreateResponse ?q ?p = Inr m" "ParseResponseData (\<lambda>rc. []) m = Inr ?p"
    "map length (txt_chunks ?p) = [255, 255, 90]"
    by auto
  then show ?thesis using q by (simp add: response_roundtrip_def)
qed

text \<open>
  Claim C7. A response whose code is neither success nor name error is parsed to an
  error that carries the text the library's table gives for the code, never to an empty
  payload without error; the name-error code alone is parsed to the empty payload
  without error.
\<close>

theorem C7_error_rcodes:
  "(Rcode msg \<noteq> RcodeSuccess \<and> Rcode msg \<noteq> RcodeNameError \<longrightarrow>
      ParseResponseData rcodeToString msg = Inl (ErrResponse (rcodeToString (Rcode msg))) \<and>
      ParseResponseData rcodeToString msg \<noteq> Inr []) \<and>
   (Rcode msg = RcodeNameError \<longrightarrow> ParseResponseData rcodeToString msg = Inr [])"
  by (simp add: ParseResponseData_def)

theorem C7_error_rcodes_witness:
  "Rcode (CreateErrorResponse new_Msg RcodeServerFailure) \<noteq> RcodeSuccess \<and>
   Rcode (CreateErrorResponse new_Msg RcodeServerFailure) \<noteq> RcodeNameError \<and>
   ParseResponseData (\<lambda>rc. if rc = 2 then ''SERVFAIL'' else [])
     (CreateErrorResponse new_Msg RcodeServerFailure) = Inl (ErrResponse ''SERVFAIL'') \<and>
   Rcode (CreateErrorResponse new_Msg RcodeNameError) = RcodeNameError \<and>
   ParseResponseData (\<lambda>rc. if rc = 2 then ''SERVFAIL'' else [])
     (CreateErrorResponse new_Msg RcodeNameError) = Inr []"
proof -
  let ?tab = "\<lambda>rc::int. if rc = 2 then ''SERVFAIL'' else []"
  let ?m = "CreateErrorResponse new_Msg RcodeServerFailure"
  let ?n = "CreateErrorResponse new_Msg RcodeNameError"
  have r: "Rcode ?m = RcodeServerFailure"
    by (simp add: CreateErrorResponse_def)
  have h: "Rcode ?m \<noteq> RcodeSuccess \<and> Rcode ?m \<noteq> RcodeNameError"
    unfolding r by (simp add: RcodeSuccess_def RcodeNameError_def RcodeServerFailure_def)
  have k: "Rcode ?n = RcodeNameError"
    by (simp add: CreateErrorResponse_def)
  from h C7_error_rcodes [of ?m ?tab]
  have "ParseResponseData ?tab ?m = Inl (ErrResponse (?tab (Rcode ?m)))" by blast
  moreover from k C7_error_rcodes [of ?n ?tab]
  have "ParseResponseData ?tab ?n = Inr []" by blast
  ultimately show ?thesis using h k unfolding r by (simp add: RcodeServerFailure_def)
qed

text \<open>
  Claim C10. With a non-empty payload \<open>CreateResponse\<close> reads the first question of the
  query: a query without a question makes the access fall out of range, a query with a
  question gives a message. The query that \<open>serverDNSStream.Write\<close> builds, the only
  caller, has exactly one question, so its call never falls out of range: \<open>Write\<close> always
  goes on to pack the message that \<open>CreateResponse\<close> returned.
\<close>

theorem C10_first_question_precondition:
  "(p \<noteq> [] \<and> Questions query = [] \<longrightarrow> CreateResponse query p = Inl PanicIndexOutOfRange) \<and>
   (Questions query \<noteq> [] \<longrightarrow> (\<exists>m. CreateResponse query p = Inr m)) \<and>
   length (Questions (dummyQuery fresh dname)) = 1 \<and>
   (\<exists>m. CreateResponse (dummyQuery fresh (domain ds)) p = Inr m \<and>
        serverDNSStream_Write swrite pack fresh ds p =
          (case pack m of
             Inl err \<Rightarrow> (Inl (Wrapf ''failed to pack DNS response'' err), ds)
           | Inr packed \<Rightarrow>
               (case swrite (stream ds) packed of
                  (Some err, st) \<Rightarrow> (Inl err, ds\<lparr>stream := st\<rparr>)
                | (None, st) \<Rightarrow> (Inr (length p), ds\<lparr>stream := st\<rparr>))))"
proof -
  have a: "CreateResponse query p = Inl PanicIndexOutOfRange"
    if "p \<noteq> []" "Questions query = []"
    using that by (simp add: CreateResponse_def Let_def)
  have b: "\<exists>m. CreateResponse query p = Inr m" if "Questions query \<noteq> []" for query
    using that
    by (cases "Questions query")
      (auto simp add: CreateResponse_def Let_def split: option.splits)
  have c: "length (Questions (dummyQuery fresh dname)) = 1" for dname
    by (simp add: dummyQuery_def SetQuestion_def)
  have "Questions (dummyQuery fresh (domain ds)) \<noteq> []"
    using c [of "domain ds"] by auto
  from b [OF this] obtain m where m: "CreateResponse (dummyQuery fresh (domain ds)) p = Inr m"
    by blast
  have "serverDNSStream_Write swrite pack fresh ds p =
          (case pack m of
             Inl err \<Rightarrow> (Inl (Wrapf ''failed to pack DNS response'' err), ds)
           | Inr packed \<Rightarrow>
               (case swrite (stream ds) packed of
                  (Some err, st) \<Rightarrow> (Inl err, ds\<lparr>stream := st\<rparr>)
                | (None, st) \<Rightarrow> (Inr (length p), ds\<lparr>stream := st\<rparr>)))"
    by (simp add: serverDNSStream_Write_def m)
  with m a b c show ?thesis by blast
qed

theorem C10_first_question_precondition_witness:
  "[0x41 :: byte] \<noteq> [] \<and> Questions new_Msg = [] \<and>
   CreateResponse new_Msg [0x41] = Inl PanicIndexOutOfRange \<and>
   Questions (dummyQuery 1 ''tunnel.example.com'') \<noteq> [] \<and>
   (\<exists>m. CreateResponse (dummyQuery 1 ''tunnel.example.com'') [0x41] = Inr m)"
proof -
  have h: "[0x41 :: byte] \<noteq> [] \<and> Questions new_Msg = []"
    by (simp add: new_Msg_def)
  have k: "Questions (dummyQuery 1 ''tunnel.example.com'') \<noteq> []"
    by (simp add: dummyQuery_def SetQuestion_def)
  from h C10_first_question_precondition [of "[0x41]" new_Msg]
  have "CreateResponse new_Msg [0x41] = Inl PanicIndexOutOfRange" by blast
  moreover from k C10_first_question_precondition [of "[0x41]" "dummyQuery 1 ''tunnel.example.com''"]
  have "\<exists>m. CreateResponse (dummyQuery 1 ''tunnel.example.com'') [0x41] = Inr m" by blast
  ultimately show ?thesis using h k by simp
qed

section \<open>Queries\<close>

lemma HasSuffix_append: "HasSuffix (xs @ ys) ys"
  by (simp add: HasSuffix_def)

lemma TrimSuffix_append: "TrimSuffix (xs @ ys) ys = xs"
  by (simp add: TrimSuffix_def HasSuffix_append)

lemma TrimSuffix_absent: "\<not> HasSuffix s suffix \<Longrightarrow> TrimSuffix s suffix = s"
  by (simp add: TrimSuffix_def)

lemma ExtractSubdomain_CreateFQDN:
  assumes "\<not> HasSuffix dname ''.''"
  shows "ExtractSubdomain (CreateFQDN sub dname) dname = Inr sub"
proof (cases "sub = []")
  case True
  have "TrimSuffix (dname @ ''.'') ''.'' = dname" by (rule TrimSuffix_append)
  then show ?thesis
    using True assms by (simp add: ExtractSubdomain_def CreateFQDN_def TrimSuffix_absent Let_def)
next
  case False
  have t: "TrimSuffix (sub @ ''.'' @ dname @ ''.'') ''.'' = sub @ ''.'' @ dname"
    using TrimSuffix_append [of "sub @ ''.'' @ dname" "''.''"] by simp
  have h: "HasSuffix (sub @ ''.'' @ dname) (''.'' @ dname)"
    using HasSuffix_append [of sub "''.'' @ dname"] by simp
  have ne: "sub @ ''.'' @ dname \<noteq> dname"
  proof
    assume "sub @ ''.'' @ dname = dname"
    then have "length (sub @ ''.'' @ dname) = length dname" by simp
    then show False by simp
  qed
  have tr: "TrimSuffix (sub @ ''.'' @ dname) (''.'' @ dname) = sub"
    using TrimSuffix_append [of sub "''.'' @ dname"] by simp
  show ?thesis
    using False assms
    by (simp only: ExtractSubdomain_def CreateFQDN_def if_False t TrimSuffix_absent Let_def
        h ne tr simp_thms)
qed

lemma EncodeSubdomain_Nil_iff: "EncodeSubdomain p = [] \<longleftrightarrow> p = []"
proof (cases "p = []")
  case True
  then show ?thesis by (simp add: EncodeSubdomain_def)
next
  case False
  then have "ToLower (EncodeToString p) \<noteq> []"
    by (simp add: ToLower_def EncodeToString_Nil_iff)
  then have "Join (split_labels (ToLower (EncodeToString p))) ''.'' \<noteq> []"
    by (simp add: Join_Nil_iff concat_split_labels)
  then show ?thesis using False by (simp add: EncodeSubdomain_def)
qed

text \<open>
  For a domain name written without a trailing dot, parsing the query built for \<open>p\<close>
  under that domain returns \<open>p\<close>, for every byte sequence \<open>p\<close>, the empty one included
  (its question name is the domain followed by the root dot).
\<close>

lemma query_roundtrip_without_trailing_dot:
  assumes "\<not> HasSuffix dname ''.''"
  shows "query_roundtrip fresh p dname = Inr p"
proof -
  have "ParseQueryData
      (SetQuestion fresh (CreateFQDN (EncodeSubdomain p) dname) TypeTXT new_Msg
        \<lparr>RecursionDesired := True, Extra := ex\<rparr>) dname = Inr p" for ex
    using DecodeSubdomain_EncodeSubdomain [of p]
    by (simp add: ParseQueryData_def SetQuestion_def ExtractSubdomain_CreateFQDN [OF assms]
        EncodeSubdomain_Nil_iff)
  then show ?thesis
    by (simp add: query_roundtrip_def CreateQuery_def Let_def)
qed

text \<open>
  Claim C2: parsing the query built for \<open>p\<close> under a domain returns \<open>p\<close>, for every
  valid domain name. It fails for a domain name in its absolute form, with the trailing
  dot: \<open>CreateFQDN\<close> appends a dot to it all the same, and \<open>ExtractSubdomain\<close>, which
  removes one trailing dot from the name and one from the domain, then finds a name that
  does not end with the domain. Here the payload is the single byte 0.
\<close>

theorem C2_trailing_dot_domain_rejected:
  "query_roundtrip fresh [0x00] ''tunnel.example.com.'' =
     Inl (Wrapf ''failed to extract subdomain''
            (ErrDomainMismatch ''aa.tunnel.example.com.'' ''tunnel.example.com''))"
proof -
  have e: "EncodeSubdomain [0x00] = ''aa''" by code_simp
  have x: "ExtractSubdomain (CreateFQDN ''aa'' ''tunnel.example.com.'') ''tunnel.example.com.'' =
      Inl (ErrDomainMismatch ''aa.tunnel.example.com.'' ''tunnel.example.com'')"
    by code_simp
  show ?thesis
    by (simp add: query_roundtrip_def CreateQuery_def Let_def ParseQueryData_def SetQuestion_def e x)
qed

text \<open>The same for the empty payload.\<close>

lemma trailing_dot_domain_rejected_empty:
  "query_roundtrip fresh [] ''tunnel.example.com.'' =
     Inl (Wrapf ''failed to extract subdomain''
            (ErrDomainMismatch ''tunnel.example.com.'' ''tunnel.example.com''))"
proof -
  have x: "ExtractSubdomain (CreateFQDN [] ''tunnel.example.com.'') ''tunnel.example.com.'' =
      Inl (ErrDomainMismatch ''tunnel.example.com.'' ''tunnel.example.com'')"
    by code_simp
  show ?thesis
    by (simp add: query_roundtrip_def CreateQuery_def Let_def ParseQueryData_def SetQuestion_def
        EncodeSubdomain_def x)
qed

section \<open>The relay waits for both copies\<close>

lemma BiDirectionalCopy_two:
  "BiDirectionalCopy [r1, r2] = Returned (first_non_EOF r1 r2)"
  by (simp add: BiDirectionalCopy_def)

lemma relay_receive_Returned: "foldl relay_receive (Returned r) ds = Returned r"
  by (induction ds) simp_all

lemma BiDirectionalCopy_Returned_length:
  "BiDirectionalCopy ds = Returned r \<Longrightarrow> 2 \<le> length ds"
proof (cases ds)
  case Nil
  assume "BiDirectionalCopy ds = Returned r"
  with Nil show ?thesis by (simp add: BiDirectionalCopy_def)
next
  case (Cons a as)
  assume r: "BiDirectionalCopy ds = Returned r"
  show ?thesis
  proof (cases as)
    case Nil
    with Cons r show ?thesis by (simp add: BiDirectionalCopy_def)
  next
    case (Cons b bs)
    with \<open>ds = a # as\<close> show ?thesis by simp
  qed
qed

text \<open>
  Claim C8. \<open>BiDirectionalCopy\<close> returns no error when both copies end gracefully; when
  exactly one of the two results is an error other than end of input, that error is
  returned, whichever of the two results the channel delivers first; and the function
  returns only after both results have been delivered: after none or one it still waits.
\<close>

theorem C8_relay_result:
  "(graceful r1 \<and> graceful r2 \<longrightarrow> BiDirectionalCopy [r1, r2] = Returned None) \<and>
   (\<not> graceful r1 \<and> graceful r2 \<longrightarrow>
      BiDirectionalCopy [r1, r2] = Returned r1 \<and> BiDirectionalCopy [r2, r1] = Returned r1) \<and>
   (\<exists>r. BiDirectionalCopy [r1, r2] = Returned r) \<and>
   BiDirectionalCopy [] = AwaitFirst \<and>
   BiDirectionalCopy [r1] = AwaitSecond r1 \<and>
   (\<forall>r. BiDirectionalCopy delivered = Returned r \<longrightarrow> 2 \<le> length delivered)"
proof -
  have "BiDirectionalCopy [] = AwaitFirst" "BiDirectionalCopy [r1] = AwaitSecond r1"
    by (simp_all add: BiDirectionalCopy_def)
  moreover have "BiDirectionalCopy [r1, r2] = Returned None" if "graceful r1" "graceful r2"
    using that by (auto simp: BiDirectionalCopy_two first_non_EOF_def graceful_def)
  moreover have "BiDirectionalCopy [r1, r2] = Returned r1 \<and> BiDirectionalCopy [r2, r1] = Returned r1"
    if "\<not> graceful r1" "graceful r2"
    using that by (auto simp: BiDirectionalCopy_two first_non_EOF_def graceful_def)
  ultimately show ?thesis
    using BiDirectionalCopy_Returned_length [of delivered]
    by (simp add: BiDirectionalCopy_two)
qed

theorem C8_relay_result_witness:
  "graceful None \<and> graceful (Some EOF) \<and> \<not> graceful (Some (LibError 1)) \<and>
   BiDirectionalCopy [None, Some EOF] = Returned None \<and>
   BiDirectionalCopy [Some (LibError 1), Some EOF] = Returned (Some (LibError 1)) \<and>
   BiDirectionalCopy [Some EOF, Some (LibError 1)] = Returned (Some (LibError 1)) \<and>
   BiDirectionalCopy [Some EOF, Some (LibError 1)] = Returned (Some (LibError 1)) \<and>
   2 \<le> length [Some EOF, Some (LibError 1)]"
proof -
  have g: "graceful None \<and> graceful (Some EOF)" "\<not> graceful (Some (LibError 1)) \<and> graceful (Some EOF)"
    by (simp_all add: graceful_def)
  from g(1) C8_relay_result [of None "Some EOF"]
  have a: "BiDirectionalCopy [None, Some EOF] = Returned None" by blast
  from g(2) C8_relay_result [of "Some (LibError 1)" "Some EOF"]
  have b: "BiDirectionalCopy [Some (LibError 1), Some EOF] = Returned (Some (LibError 1)) \<and>
      BiDirectionalCopy [Some EOF, Some (LibError 1)] = Returned (Some (LibError 1))" by blast
  from b C8_relay_result [of _ _ "[Some EOF, Some (LibError 1)]"]
  have "2 \<le> length [Some EOF, Some (LibError 1)]" by blast
  with a b g show ?thesis by simp
qed


section \<open>Reads of the stream adapters\<close>

lemma snd_dnsStream_Read:
  "snd (dnsStream_Read sread unpack rcodeToString ds n) = ds\<lparr>stream := snd (sread (stream ds) 4096)\<rparr>"
  by (simp add: dnsStream_Read_def split: prod.splits option.splits sum.splits)

lemma snd_serverDNSStream_Read:
  "snd (serverDNSStream_Read sread unpack ds n) = ds\<lparr>stream := snd (sread (stream ds) 4096)\<rparr>"
  by (simp add: serverDNSStream_Read_def split: prod.splits option.splits sum.splits)

text \<open>
  Claim C9. When the payload decoded by a \<open>Read\<close> (client or server) is longer than the
  caller's buffer, \<open>Read\<close> copies the first \<open>len(p)\<close> bytes and returns that count without
  error. The adapter after the call is the adapter with its stream after the one read,
  whatever the length of the buffer was: the bytes that did not fit are kept nowhere, so
  no later read delivers them.
\<close>

theorem C9_read_truncates:
  "(sread (stream ds) 4096 = ((buf, None), st) \<and> unpack buf = Inr msg \<and>
    ParseResponseData rcodeToString msg = Inr data \<and> len_p < length data \<longrightarrow>
      dnsStream_Read sread unpack rcodeToString ds len_p =
        (Inr (take len_p data), ds\<lparr>stream := st\<rparr>) \<and>
      length (take len_p data) = len_p) \<and>
   (sread (stream ds) 4096 = ((buf, None), st) \<and> unpack buf = Inr msg \<and>
    ParseQueryData msg (domain ds) = Inr qdata \<and> len_p < length qdata \<longrightarrow>
      serverDNSStream_Read sread unpack ds len_p =
        (Inr (take len_p qdata), ds\<lparr>stream := st\<rparr>) \<and>
      length (take len_p qdata) = len_p) \<and>
   snd (dnsStream_Read sread unpack rcodeToString ds len_p) =
     snd (dnsStream_Read sread unpack rcodeToString ds len_q) \<and>
   snd (serverDNSStream_Read sread unpack ds len_p) =
     snd (serverDNSStream_Read sread unpack ds len_q)"
proof -
  have "dnsStream_Read sread unpack rcodeToString ds len_p =
          (Inr (take len_p data), ds\<lparr>stream := st\<rparr>) \<and> length (take len_p data) = len_p"
    if "sread (stream ds) 4096 = ((buf, None), st)" "unpack buf = Inr msg"
      "ParseResponseData rcodeToString msg = Inr data" "len_p < length data"
    using that by (simp add: dnsStream_Read_def)
  moreover have "serverDNSStream_Read sread unpack ds len_p =
          (Inr (take len_p qdata), ds\<lparr>stream := st\<rparr>) \<and> length (take len_p qdata) = len_p"
    if "sread (stream ds) 4096 = ((buf, None), st)" "unpack buf = Inr msg"
      "ParseQueryData msg (domain ds) = Inr qdata" "len_p < length qdata"
    using that by (simp add: serverDNSStream_Read_def)
  moreover have "snd (dnsStream_Read sread unpack rcodeToString ds len_p) =
     snd (dnsStream_Read sread unpack rcodeToString ds len_q)"
    by (simp only: snd_dnsStream_Read)
  moreover have "snd (serverDNSStream_Read sread unpack ds len_p) =
     snd (serverDNSStream_Read sread unpack ds len_q)"
    by (simp only: snd_serverDNSStream_Read)
  ultimately show ?thesis by blast
qed


theorem C9_read_truncates_witness:
  "seg_read [wire_A, wire_B] 4096 = ((wire_A, None), [wire_B]) \<and>
   2 < length [0x68, 0x65, 0x6C, 0x6C, 0x6F :: byte] \<and>
   dnsStream_Read seg_read
     (table_unpack [(wire_A, example_response [0x68, 0x65, 0x6C, 0x6C, 0x6F]),
                    (wire_B, example_response [0x77, 0x6F, 0x72, 0x6C, 0x64])])
     (\<lambda>rc. []) \<lparr>stream = [wire_A, wire_B], domain = example_domain\<rparr> 2 =
     (Inr [0x68, 0x65], \<lparr>stream = [wire_B], domain = example_domain\<rparr>) \<and>
   dnsStream_Read seg_read
     (table_unpack [(wire_A, example_response [0x68, 0x65, 0x6C, 0x6C, 0x6F]),
                    (wire_B, example_response [0x77, 0x6F, 0x72, 0x6C, 0x64])])
     (\<lambda>rc. []) \<lparr>stream = [wire_B], domain = example_domain\<rparr> 4096 =
     (Inr [0x77, 0x6F, 0x72, 0x6C, 0x64], \<lparr>stream = [], domain = example_domain\<rparr>) \<and>
   serverDNSStream_Read seg_read
     (table_unpack [(wire_A, example_query [0x68, 0x65, 0x6C, 0x6C, 0x6F]),
                    (wire_B, example_query [0x77, 0x6F, 0x72, 0x6C, 0x64])])
     \<lparr>stream = [wire_A, wire_B], domain = example_domain\<rparr> 2 =
     (Inr [0x68, 0x65], \<lparr>stream = [wire_B], domain = example_domain\<rparr>) \<and>
   serverDNSStream_Read seg_read
     (table_unpack [(wire_A, example_query [0x68, 0x65, 0x6C, 0x6C, 0x6F]),
                    (wire_B, example_query [0x77, 0x6F, 0x72, 0x6C, 0x64])])
     \<lparr>stream = [wire_B], domain = example_domain\<rparr> 4096 =
     (Inr [0x77, 0x6F, 0x72, 0x6C, 0x64], \<lparr>stream = [], domain = example_domain\<rparr>)"
proof -
  let ?hello = "[0x68, 0x65, 0x6C, 0x6C, 0x6F :: byte]"
  let ?world = "[0x77, 0x6F, 0x72, 0x6C, 0x64 :: byte]"
  let ?tab = "[(wire_A, example_response ?hello), (wire_B, example_response ?world)]"
  let ?qtab = "[(wire_A, example_query ?hello), (wire_B, example_query ?world)]"
  let ?ds = "\<lparr>stream = [wire_A, wire_B], domain = example_domain\<rparr>"
  have rd: "seg_read (stream ?ds) 4096 = ((wire_A, None), [wire_B])"
    by (simp add: wire_A_def)
  have u: "table_unpack ?tab wire_A = Inr (example_response ?hello)"
    "table_unpack ?qtab wire_A = Inr (example_query ?hello)"
    by (simp_all add: table_unpack_def)
  have p: "ParseResponseData (\<lambda>rc. []) (example_response ?hello) = Inr ?hello"
    by code_simp
  have q: "ParseQueryData (example_query ?hello) (domain ?ds) = Inr ?hello"
    by code_simp
  have l: "2 < length ?hello" by simp
  from rd u(1) p l
    C9_read_truncates [of seg_read ?ds wire_A "[wire_B]" "table_unpack ?tab"
      "example_response ?hello" "\<lambda>rc. []" ?hello 2]
  have c: "dnsStream_Read seg_read (table_unpack ?tab) (\<lambda>rc. []) ?ds 2 =
      (Inr (take 2 ?hello), ?ds\<lparr>stream := [wire_B]\<rparr>)"
    by blast
  from rd u(2) q l
    C9_read_truncates [of seg_read ?ds wire_A "[wire_B]" "table_unpack ?qtab"
      "example_query ?hello" _ _ _ ?hello]
  have s: "serverDNSStream_Read seg_read (table_unpack ?qtab) ?ds 2 =
      (Inr (take 2 ?hello), ?ds\<lparr>stream := [wire_B]\<rparr>)"
    by blast
  have c2: "dnsStream_Read seg_read (table_unpack ?tab) (\<lambda>rc. [])
      \<lparr>stream = [wire_B], domain = example_domain\<rparr> 4096 =
      (Inr ?world, \<lparr>stream = [], domain = example_domain\<rparr>)"
    by code_simp
  have s2: "serverDNSStream_Read seg_read (table_unpack ?qtab)
      \<lparr>stream = [wire_B], domain = example_domain\<rparr> 4096 =
      (Inr ?world, \<lparr>stream = [], domain = example_domain\<rparr>)"
    by code_simp
  show ?thesis using rd c s c2 s2 by simp
qed

text \<open>
  Claim C4, as amended. A \<open>Read\<close> of an adapter (client or server) reads the stream exactly
  once and treats the bytes of that one read as one message: when they do not unpack, it
  fails at once with the wrapped error of \<open>Unpack\<close>. Nothing is accumulated across reads,
  and there is no maximum buffer size.
\<close>

theorem C4_one_read_per_message:
  "stream (snd (dnsStream_Read sread unpack rcodeToString ds n)) = snd (sread (stream ds) 4096) \<and>
   stream (snd (serverDNSStream_Read sread unpack ds n)) = snd (sread (stream ds) 4096) \<and>
   (sread (stream ds) 4096 = ((buf, None), st) \<and> unpack buf = Inl e \<longrightarrow>
      dnsStream_Read sread unpack rcodeToString ds n =
        (Inl (Wrapf ''failed to parse DNS response'' e), ds\<lparr>stream := st\<rparr>) \<and>
      serverDNSStream_Read sread unpack ds n =
        (Inl (Wrapf ''failed to parse DNS query'' e), ds\<lparr>stream := st\<rparr>))"
proof -
  have "dnsStream_Read sread unpack rcodeToString ds n =
        (Inl (Wrapf ''failed to parse DNS response'' e), ds\<lparr>stream := st\<rparr>) \<and>
      serverDNSStream_Read sread unpack ds n =
        (Inl (Wrapf ''failed to parse DNS query'' e), ds\<lparr>stream := st\<rparr>)"
    if "sread (stream ds) 4096 = ((buf, None), st)" "unpack buf = Inl e"
    using that by (simp add: dnsStream_Read_def serverDNSStream_Read_def)
  then show ?thesis
    by (simp add: snd_dnsStream_Read snd_serverDNSStream_Read)
qed

theorem C4_one_read_per_message_witness:
  "seg_read [take 5 wire_A, drop 5 wire_A] 4096 = ((take 5 wire_A, None), [drop 5 wire_A]) \<and>
   table_unpack [(wire_A, example_response [0x68, 0x65, 0x6C, 0x6C, 0x6F])] (take 5 wire_A) =
     Inl (LibError 0) \<and>
   dnsStream_Read seg_read (table_unpack [(wire_A, example_response [0x68, 0x65, 0x6C, 0x6C, 0x6F])])
     (\<lambda>rc. []) \<lparr>stream = [take 5 wire_A, drop 5 wire_A], domain = example_domain\<rparr> 512 =
     (Inl (Wrapf ''failed to parse DNS response'' (LibError 0)),
      \<lparr>stream = [drop 5 wire_A], domain = example_domain\<rparr>)"
proof -
  let ?tab = "[(wire_A, example_response [0x68, 0x65, 0x6C, 0x6C, 0x6F])]"
  let ?ds = "\<lparr>stream = [take 5 wire_A, drop 5 wire_A], domain = example_domain\<rparr>"
  have rd: "seg_read (stream ?ds) 4096 = ((take 5 wire_A, None), [drop 5 wire_A])"
    by (simp add: wire_A_def)
  have u: "table_unpack ?tab (take 5 wire_A) = Inl (LibError 0)"
    by (simp add: table_unpack_def wire_A_def)
  from rd u
    C4_one_read_per_message [of seg_read "table_unpack ?tab" "\<lambda>rc. []" ?ds 512
      "take 5 wire_A" "[drop 5 wire_A]" "LibError 0"]
  have "dnsStream_Read seg_read (table_unpack ?tab) (\<lambda>rc. []) ?ds 512 =
      (Inl (Wrapf ''failed to parse DNS response'' (LibError 0)), ?ds\<lparr>stream := [drop 5 wire_A]\<rparr>)"
    by blast
  then show ?thesis using rd u by simp
qed

text \<open>
  Claim C4 as stated fails: the 14 bytes of a message arrive in two reads of 5 and 9
  bytes. Together they unpack to a response that carries \<open>hello\<close>, but the \<open>Read\<close> hands
  the first 5 bytes alone to \<open>Unpack\<close> (they are shorter than a DNS header) and returns
  its error; the other 9 bytes are left for the next \<open>Read\<close>.
\<close>

theorem C4_short_read_counterexample:
  "seg_read [take 5 wire_A, drop 5 wire_A] 4096 = ((take 5 wire_A, None), [drop 5 wire_A]) \<and>
   length (take 5 wire_A) < length wire_A \<and>
   table_unpack [(wire_A, example_response [0x68, 0x65, 0x6C, 0x6C, 0x6F])]
     (take 5 wire_A @ drop 5 wire_A) = Inr (example_response [0x68, 0x65, 0x6C, 0x6C, 0x6F]) \<and>
   ParseResponseData (\<lambda>rc. []) (example_response [0x68, 0x65, 0x6C, 0x6C, 0x6F]) =
     Inr [0x68, 0x65, 0x6C, 0x6C, 0x6F] \<and>
   dnsStream_Read seg_read (table_unpack [(wire_A, example_response [0x68, 0x65, 0x6C, 0x6C, 0x6F])])
     (\<lambda>rc. []) \<lparr>stream = [take 5 wire_A, drop 5 wire_A], domain = example_domain\<rparr> 4096 =
     (Inl (Wrapf ''failed to parse DNS response'' (LibError 0)),
      \<lparr>stream = [drop 5 wire_A], domain = example_domain\<rparr>) \<and>
   ParseQueryData (example_query [0x68, 0x65, 0x6C, 0x6C, 0x6F]) example_domain =
     Inr [0x68, 0x65, 0x6C, 0x6C, 0x6F] \<and>
   serverDNSStream_Read seg_read (table_unpack [(wire_A, example_query [0x68, 0x65, 0x6C, 0x6C, 0x6F])])
     \<lparr>stream = [take 5 wire_A, drop 5 wire_A], domain = example_domain\<rparr> 4096 =
     (Inl (Wrapf ''failed to parse DNS query'' (LibError 0)),
      \<lparr>stream = [drop 5 wire_A], domain = example_domain\<rparr>)"
  by code_simp

end
